theory Spec2Isabelle
  imports Main "HOL-Library.Word"
begin

section \<open>Errors and machine integers\<close>

text \<open>
  Go's \<open>error\<close> interface: \<open>None\<close> stands for \<open>nil\<close>. The only error value the
  package's documentation singles out is the splitter's "token too long"; every other
  failure (of a read, of a close) carries its message.
\<close>

datatype error = ErrTooLong | ErrOther string

text \<open>
  Go's \<open>int\<close> is a signed 64-bit integer: \<open>++\<close> wraps around, comparisons are signed.
\<close>

type_synonym go_int = "64 word"

text \<open>\<open>len(s)\<close> of a slice, as a Go \<open>int\<close>.\<close>

definition len :: "'a list \<Rightarrow> go_int" where
  "len xs = of_nat (length xs)"

text \<open>
  \<open>s[k]\<close> on a slice: Go panics with "index out of range" unless \<open>0 \<le> k < len(s)\<close>.
  The panic is the value \<open>None\<close>.
\<close>

definition index :: "'a list \<Rightarrow> go_int \<Rightarrow> 'a option" where
  "index xs k = (if 0 \<le>s k \<and> k <s len xs then Some (xs ! nat (sint k)) else None)"

section \<open>The slice iterator\<close>

text \<open>
  \<^verbatim>\<open>
  type sliceIter[T any] struct {
      values []T
      next   int
  }
  \<close>
\<close>

record 'a sliceIter =
  "values" :: "'a list"
  "next" :: go_int

text \<open>\<^verbatim>\<open>func (i *sliceIter[T]) Item() T { return i.values[i.next-1] }\<close>\<close>

definition sliceIter_Item :: "'a sliceIter \<Rightarrow> 'a option" where
  "sliceIter_Item i = index (values i) (next i - 1)"

text \<open>
  \<^verbatim>\<open>
  func (i *sliceIter[T]) Next() bool {
      if i.next <= len(i.values) {
          i.next++
      }
      return i.next <= len(i.values)
  }
  \<close>
  The method has a pointer receiver and assigns to \<open>i.next\<close>: the model returns the
  result together with the updated iterator.
\<close>

definition sliceIter_Next :: "'a sliceIter \<Rightarrow> bool \<times> 'a sliceIter" where
  "sliceIter_Next i =
     (let i' = (if next i \<le>s len (values i) then i\<lparr>next := next i + 1\<rparr> else i)
      in (next i' \<le>s len (values i'), i'))"

text \<open>\<^verbatim>\<open>func (i *sliceIter[T]) Err() error { return nil }\<close>\<close>

definition sliceIter_Err :: "'a sliceIter \<Rightarrow> error option" where
  "sliceIter_Err i = None"

text \<open>\<^verbatim>\<open>func (i *sliceIter[T]) Close() error { return nil }\<close>\<close>

definition sliceIter_Close :: "'a sliceIter \<Rightarrow> error option" where
  "sliceIter_Close i = None"

text \<open>
  Modelled from the spec: the constructor of the slice iterator is not among the source
  files. The spec has it take an ordered list and return a producer over that list (not
  copied) with the cursor at 0, which is also the zero value of the \<open>next\<close> field.
\<close>

definition Slice :: "'a list \<Rightarrow> 'a sliceIter" where
  "Slice vs = \<lparr>values = vs, next = 0\<rparr>"

subsection \<open>Sequences of calls\<close>

text \<open>
  A client drives the iterator through its four methods. \<open>exec\<close> performs one call and
  returns what the method returns together with the iterator afterwards; only \<open>Next\<close>
  assigns to a field. An \<open>Item\<close> call that panics leaves the iterator as it was.
\<close>

datatype call = CallItem | CallNext | CallErr | CallClose

datatype 'a reply =
  ItemReply "'a option" | NextReply bool | ErrReply "error option" | CloseReply "error option"

fun exec :: "call \<Rightarrow> 'a sliceIter \<Rightarrow> 'a reply \<times> 'a sliceIter" where
  "exec CallItem i = (ItemReply (sliceIter_Item i), i)"
| "exec CallNext i = (case sliceIter_Next i of (b, i') \<Rightarrow> (NextReply b, i'))"
| "exec CallErr i = (ErrReply (sliceIter_Err i), i)"
| "exec CallClose i = (CloseReply (sliceIter_Close i), i)"

fun run :: "call list \<Rightarrow> 'a sliceIter \<Rightarrow> 'a sliceIter" where
  "run [] i = i"
| "run (k # ks) i = run ks (snd (exec k i))"

text \<open>
  The spec's reading of \<open>Next\<close>, kept apart from the source's: "if the cursor has not
  reached the list length, increments the cursor and returns true; otherwise leaves the
  cursor at the list length and returns false".
\<close>

definition spec_Next :: "'a sliceIter \<Rightarrow> bool \<times> 'a sliceIter" where
  "spec_Next i =
     (if next i <s len (values i) then (True, i\<lparr>next := next i + 1\<rparr>) else (False, i))"

section \<open>The scanner iterator\<close>

text \<open>
  Modelled from the spec: the buffered line splitter behind the \<open>scanner\<close> field and
  the constructor that wraps a resource in it are not among the source files. The
  field's type names the splitter: Go's \<open>bufio.Scanner\<close>, which the spec (sections 4.2,
  6 and 7) describes as a buffered, line-oriented splitter with a maximum line length.
  The model is the library's \<open>Scan\<close> with its default split function \<open>ScanLines\<close>, which
  is what the iterator's \<open>Next\<close> calls; where the spec's summary and the library part
  (what happens once a line does not fit the buffer), the model follows the library.

  \<^item> \<open>ScanLines\<close> cuts a token at the first newline of the buffered data and advances
    past the newline; a carriage return at the end of the token is dropped. With no
    newline in the data it asks for more data, unless reading has ended: then data
    that is left is the last token, and no data gives no token.
  \<^item> \<open>Scan\<close> runs the split function on the buffered data and returns true when there
    is a token. Otherwise it reads more; a buffer that is full at the maximum token
    size sets the error to "token too long" and returns false. When the resource's
    read ends (end of input or a failure) the error is recorded and the split function
    runs once more, with \<open>atEOF\<close> true. In either case the token is cleared before
    \<open>Scan\<close> returns false.
  \<^item> \<open>Scan\<close> does not look at the recorded error on entry: a call after "token too
    long" hands the buffered bytes to the split function with \<open>atEOF\<close> true.
  \<^item> \<open>Err\<close> reports the recorded error, and nothing for the end of input.

  The buffer and the resource are kept together. While reading goes on, \<open>unread\<close> is
  what no token has consumed yet, buffered or still in the resource; once reading has
  ended it is what is left in the buffer. \<open>failure\<close> is what the resource's read reports
  after its content (\<open>None\<close> for the end of input), on a read of its own. \<open>atEOF\<close> says
  that an error is recorded, the end of input included, and \<open>err\<close> is that error as
  \<open>Err\<close> reports it. The maximum token size is a parameter.
\<close>

definition newline :: char where
  "newline = CHR 0x0A"

definition carriage_return :: char where
  "carriage_return = CHR 0x0D"

definition dropCR :: "string \<Rightarrow> string" where
  "dropCR ln = (if ln \<noteq> [] \<and> last ln = carriage_return then butlast ln else ln)"

record Scanner =
  unread :: string
  failure :: "error option"
  maxTokenSize :: nat
  token :: string
  err :: "error option"
  atEOF :: bool

text \<open>
  The step of \<open>Scan\<close> once reading has ended: the split function sees what is left in
  the buffer, with \<open>atEOF\<close> true. Nothing left gives no token, and \<open>Scan\<close> returns false
  with the token cleared; otherwise the token is the data up to the first newline, or
  all of it.
\<close>

definition finalToken :: "Scanner \<Rightarrow> bool \<times> Scanner" where
  "finalToken s =
     (if unread s = [] then (False, s\<lparr>token := []\<rparr>)
      else
        let ln = takeWhile (\<lambda>x. x \<noteq> newline) (unread s)
        in (True, s\<lparr>unread := drop (Suc (length ln)) (unread s), token := dropCR ln\<rparr>))"

text \<open>
  \<open>Scan\<close>. While reading goes on, with \<open>ln\<close> the bytes before the first newline (or
  all bytes, if there is none):
  \<^item> if \<open>ln\<close> alone fills a buffer of the maximum size, no token is found before the
    buffer is full: the error is "token too long", the token is cleared, and the buffer
    holds the first \<open>maxTokenSize\<close> bytes; the rest of the resource is never read;
  \<^item> if a newline follows \<open>ln\<close>, the line is the token;
  \<^item> otherwise the read reaches the end of the content: what it reports is recorded,
    and the step for the end of reading follows.
\<close>

definition Scan :: "Scanner \<Rightarrow> bool \<times> Scanner" where
  "Scan s =
     (if atEOF s then finalToken s
      else
        let ln = takeWhile (\<lambda>x. x \<noteq> newline) (unread s)
        in if maxTokenSize s \<le> length ln
           then (False, s\<lparr>unread := take (maxTokenSize s) (unread s), token := [],
                           err := Some ErrTooLong, atEOF := True\<rparr>)
           else if length ln < length (unread s)
           then (True, s\<lparr>unread := drop (Suc (length ln)) (unread s), token := dropCR ln\<rparr>)
           else finalToken (s\<lparr>err := failure s, atEOF := True\<rparr>))"

definition Text :: "Scanner \<Rightarrow> string" where
  "Text s = token s"

definition Err :: "Scanner \<Rightarrow> error option" where
  "Err s = err s"

text \<open>
  \<^verbatim>\<open>
  type scannerIter struct {
      c       io.Closer
      scanner *bufio.Scanner
  }
  \<close>
  \<open>'c\<close> is the state of the wrapped resource behind the \<open>io.Closer\<close> interface,
  \<open>'s\<close> the state of the scanner.
\<close>

record ('c, 's) scannerIter =
  c :: 'c
  scanner :: 's

text \<open>\<^verbatim>\<open>func (i *scannerIter) Item() string { return i.scanner.Text() }\<close>\<close>

definition scannerIter_Item :: "('c, Scanner) scannerIter \<Rightarrow> string" where
  "scannerIter_Item i = Text (scanner i)"

text \<open>\<^verbatim>\<open>func (i *scannerIter) Next() bool { return i.scanner.Scan() }\<close>\<close>

definition scannerIter_Next ::
  "('c, Scanner) scannerIter \<Rightarrow> bool \<times> ('c, Scanner) scannerIter" where
  "scannerIter_Next i = (case Scan (scanner i) of (b, s') \<Rightarrow> (b, i\<lparr>scanner := s'\<rparr>))"

text \<open>\<^verbatim>\<open>func (i *scannerIter) Err() error { return i.scanner.Err() }\<close>\<close>

definition scannerIter_Err :: "('c, Scanner) scannerIter \<Rightarrow> error option" where
  "scannerIter_Err i = Err (scanner i)"

text \<open>
  \<^verbatim>\<open>func (i *scannerIter) Close() error { return i.c.Close() }\<close>
  \<open>io.Closer\<close> is an interface: the \<open>Close\<close> method of the wrapped resource is the
  parameter \<open>close\<close>, which returns the resource's error and its state afterwards.
\<close>

definition scannerIter_Close ::
  "('c \<Rightarrow> error option \<times> 'c) \<Rightarrow> ('c, 's) scannerIter \<Rightarrow> error option \<times> ('c, 's) scannerIter" where
  "scannerIter_Close close i = (case close (c i) of (e, r) \<Rightarrow> (e, i\<lparr>c := r\<rparr>))"

text \<open>
  Modelled from the spec: the constructor is not among the source files. The spec has
  it take a readable and closable resource and return a producer positioned before the
  first item. Here the resource is its closable state \<open>r\<close>, its content, the failure of
  its read (if any) and the splitter's maximum line length.
\<close>

definition NewScannerIter ::
  "'c \<Rightarrow> string \<Rightarrow> error option \<Rightarrow> nat \<Rightarrow> ('c, Scanner) scannerIter" where
  "NewScannerIter r content fail mx =
     \<lparr>c = r,
      scanner = \<lparr>unread = content, failure = fail, maxTokenSize = mx,
                 token = [], err = None, atEOF = False\<rparr>\<rparr>"

text \<open>
  The consumer's loop, cut off after \<open>n\<close> rounds: each round calls \<open>Next\<close> and, when it
  returned true, \<open>Item\<close>. A round is \<open>Some\<close> item, or \<open>None\<close> when \<open>Next\<close> returned false.
\<close>

fun pulls ::
  "nat \<Rightarrow> ('c, Scanner) scannerIter \<Rightarrow> string option list \<times> ('c, Scanner) scannerIter" where
  "pulls 0 i = ([], i)"
| "pulls (Suc n) i =
     (case scannerIter_Next i of (b, i') \<Rightarrow>
        (case pulls n i' of (rs, i'') \<Rightarrow>
           ((if b then Some (scannerIter_Item i') else None) # rs, i'')))"

section \<open>Properties of the slice iterator\<close>

subsection \<open>Signed arithmetic on Go's \<open>int\<close>\<close>

text \<open>
  A slice's length is a non-negative Go \<open>int\<close>, so it is below \<open>2 ^ 63\<close>. The increment
  of the cursor does not wrap as long as the cursor is below the largest \<open>int\<close>, which
  the guard of \<open>Next\<close> ensures for every slice shorter than \<open>2 ^ 63 - 1\<close>.
\<close>

lemma sint_len: "length xs < 2 ^ 63 \<Longrightarrow> sint (len xs) = int (length xs)"
  unfolding len_def
  by (simp add: signed_of_nat signed_take_bit_int_eq_self)

lemma sint_succ: "sint (w :: go_int) < 2 ^ 63 - 1 \<Longrightarrow> sint (w + 1) = sint w + 1"
  using sint_ge [of w]
  by (simp add: sint_word_ariths signed_take_bit_int_eq_self)

lemma sint_pred: "- (2 ^ 63) < sint (w :: go_int) \<Longrightarrow> sint (w - 1) = sint w - 1"
  using sint_lt [of w]
  by (simp add: sint_word_ariths signed_take_bit_int_eq_self)

lemma Next_result:
  assumes "length (values i) < 2 ^ 63 - 1"
  shows "fst (sliceIter_Next i) = (sint (next i) < int (length (values i)))"
proof -
  from assms have L: "sint (len (values i)) = int (length (values i))"
    by (simp add: sint_len)
  show ?thesis
  proof (cases "sint (next i) \<le> int (length (values i))")
    case True
    with assms have "sint (next i + 1) = sint (next i) + 1"
      by (intro sint_succ) simp
    with True L show ?thesis
      by (auto simp: sliceIter_Next_def word_sle_eq)
  next
    case False
    with L show ?thesis
      by (simp add: sliceIter_Next_def word_sle_eq)
  qed
qed

lemma Next_state:
  assumes "length (values i) < 2 ^ 63"
  shows "snd (sliceIter_Next i) =
    (if sint (next i) \<le> int (length (values i)) then i\<lparr>next := next i + 1\<rparr> else i)"
  using assms by (simp add: sliceIter_Next_def word_sle_eq sint_len)

lemma Next_cursor:
  assumes "length (values i) < 2 ^ 63 - 1"
  shows "sint (next (snd (sliceIter_Next i))) =
    (if sint (next i) \<le> int (length (values i)) then sint (next i) + 1 else sint (next i))"
proof -
  have "sint (next i + 1) = sint (next i) + 1" if "sint (next i) \<le> int (length (values i))"
    using that assms by (intro sint_succ) simp
  with assms show ?thesis
    by (simp add: Next_state)
qed

lemma Next_values: "values (snd (sliceIter_Next i)) = values i"
  by (simp add: sliceIter_Next_def)

lemma exec_Next: "exec CallNext i = (NextReply (fst (sliceIter_Next i)), snd (sliceIter_Next i))"
  by (simp split: prod.splits)

lemma exec_values: "values (snd (exec k i)) = values i"
  by (cases k) (simp_all only: exec_Next exec.simps snd_conv Next_values)

lemma exec_not_Next: "k \<noteq> CallNext \<Longrightarrow> snd (exec k i) = i"
  by (cases k) simp_all

lemma run_values: "values (run ks i) = values i"
  by (induction ks arbitrary: i) (simp_all add: exec_values)

lemma run_no_Next: "CallNext \<notin> set ks \<Longrightarrow> run ks i = i"
  by (induction ks arbitrary: i) (auto simp: exec_not_Next)

lemma exec_cursor:
  assumes "length (values i) < 2 ^ 63 - 1"
  shows "sint (next (snd (exec k i))) =
    (if k = CallNext \<and> sint (next i) \<le> int (length (values i)) then sint (next i) + 1 else sint (next i))"
  using Next_cursor [OF assms] by (cases k) (simp_all only: exec_Next exec.simps snd_conv, simp_all)

lemma run_cursor:
  assumes "length (values i) < 2 ^ 63 - 1"
  shows "sint (next (run ks i)) =
    max (sint (next i)) (min (sint (next i) + int (count_list ks CallNext)) (int (length (values i)) + 1))"
  using assms
proof (induction ks arbitrary: i)
  case Nil
  then show ?case by simp
next
  case (Cons k ks)
  have "length (values (snd (exec k i))) < 2 ^ 63 - 1"
    using Cons.prems by (simp add: exec_values)
  from Cons.IH [OF this] exec_cursor [OF Cons.prems, of k]
  show ?case by (auto simp: exec_values)
qed

lemma Slice_cursor:
  assumes "length vs < 2 ^ 63 - 1"
  shows "sint (next (run ks (Slice vs))) = min (int (count_list ks CallNext)) (int (length vs) + 1)"
  using run_cursor [of "Slice vs" ks] assms by (simp add: Slice_def)

text \<open>
  The access in \<open>Item\<close>: for a cursor that is not negative the index \<open>next - 1\<close> does not
  wrap, and the access is in bounds exactly when the cursor is in the range [1, length].
\<close>

lemma Item_eq:
  assumes "length (values i) < 2 ^ 63" and "0 \<le> sint (next i)"
  shows "sint (next i - 1) = sint (next i) - 1"
    and "sliceIter_Item i =
      (if 1 \<le> sint (next i) \<and> sint (next i) \<le> int (length (values i))
       then Some (values i ! nat (sint (next i) - 1)) else None)"
proof -
  show P: "sint (next i - 1) = sint (next i) - 1"
    using assms(2) by (intro sint_pred) simp
  show "sliceIter_Item i =
      (if 1 \<le> sint (next i) \<and> sint (next i) \<le> int (length (values i))
       then Some (values i ! nat (sint (next i) - 1)) else None)"
    using assms(1) P
    by (auto simp: sliceIter_Item_def index_def word_sle_eq word_sless_alt sint_len)
qed

subsection \<open>The range of the cursor\<close>

text \<open>
  C1, as stated: the cursor stays in the range [0, length]. Counterexample: over the
  one-element list \<open>[7]\<close> the second call of \<open>Next\<close> (the one that returns false) leaves
  the cursor at 2, above the length 1.
\<close>

theorem C1_counterexample:
  "\<not> sint (next (run [CallNext, CallNext] (Slice [7::nat])))
       \<le> int (length (values (run [CallNext, CallNext] (Slice [7::nat]))))"
  by (simp add: Slice_def sliceIter_Next_def len_def word_sle_eq)

text \<open>
  C1, amended: the cursor starts at 0 and every sequence of \<open>Next\<close>, \<open>Item\<close>, \<open>Err\<close> and
  \<open>Close\<close> calls keeps it in the range [0, length + 1]; a call of \<open>Next\<close> returns false
  exactly when it leaves the cursor at length + 1, so it is cursor = length + 1 that
  signals exhaustion. (For slices shorter than \<open>2 ^ 63 - 1\<close>.)
\<close>

theorem cursor_range:
  assumes "length vs < 2 ^ 63 - 1"
  shows "next (Slice vs) = 0
    \<and> 0 \<le> sint (next (run ks (Slice vs)))
    \<and> sint (next (run ks (Slice vs))) \<le> int (length vs) + 1
    \<and> (fst (sliceIter_Next (run ks (Slice vs))) = False) =
        (sint (next (snd (sliceIter_Next (run ks (Slice vs))))) = int (length vs) + 1)"
proof -
  let ?s = "run ks (Slice vs)"
  have V: "values ?s = vs" by (simp add: run_values Slice_def)
  have L: "length (values ?s) < 2 ^ 63 - 1" using assms V by simp
  have C: "sint (next ?s) = min (int (count_list ks CallNext)) (int (length vs) + 1)"
    by (rule Slice_cursor [OF assms])
  have "(fst (sliceIter_Next ?s) = False) =
        (sint (next (snd (sliceIter_Next ?s))) = int (length vs) + 1)"
    using Next_result [OF L] Next_cursor [OF L] C V by auto
  with C show ?thesis by (simp add: Slice_def)
qed

text \<open>Witness for C1: the list \<open>[7]\<close> and two calls of \<open>Next\<close>.\<close>

theorem cursor_range_witness:
  "length [7::nat] < 2 ^ 63 - 1
    \<and> next (Slice [7::nat]) = 0
    \<and> 0 \<le> sint (next (run [CallNext, CallNext] (Slice [7::nat])))
    \<and> sint (next (run [CallNext, CallNext] (Slice [7::nat]))) \<le> int (length [7::nat]) + 1
    \<and> (fst (sliceIter_Next (run [CallNext, CallNext] (Slice [7::nat]))) = False) =
        (sint (next (snd (sliceIter_Next (run [CallNext, CallNext] (Slice [7::nat])))))
          = int (length [7::nat]) + 1)"
  using cursor_range [of "[7::nat]" "[CallNext, CallNext]"] by simp

subsection \<open>One call of \<open>Next\<close>\<close>

text \<open>
  C2, as stated: \<open>Next\<close> increments the cursor and returns true while the cursor has not
  reached the length, and otherwise returns false and leaves the cursor where it is.
  Counterexample: over \<open>[7]\<close>, after one call the cursor is 1, the length; the next call
  returns false but moves the cursor to 2.
\<close>

theorem C2_counterexample:
  "sliceIter_Next (run [CallNext] (Slice [7::nat])) \<noteq> spec_Next (run [CallNext] (Slice [7::nat]))"
  by (simp add: Slice_def sliceIter_Next_def spec_Next_def len_def word_sle_eq word_sless_alt)

text \<open>
  C2, amended: if the cursor is below the length, \<open>Next\<close> increments it and returns true;
  if the cursor equals the length, \<open>Next\<close> still increments it, to length + 1, and returns
  false; if the cursor is above the length, \<open>Next\<close> leaves the iterator unchanged and
  returns false. (For slices shorter than \<open>2 ^ 63 - 1\<close>.)
\<close>

theorem Next_cases:
  assumes "length (values i) < 2 ^ 63 - 1"
  shows "(sint (next i) < int (length (values i)) \<longrightarrow>
            sliceIter_Next i = (True, i\<lparr>next := next i + 1\<rparr>)
            \<and> sint (next i + 1) = sint (next i) + 1)
       \<and> (sint (next i) = int (length (values i)) \<longrightarrow>
            sliceIter_Next i = (False, i\<lparr>next := next i + 1\<rparr>)
            \<and> sint (next i + 1) = int (length (values i)) + 1)
       \<and> (int (length (values i)) < sint (next i) \<longrightarrow> sliceIter_Next i = (False, i))"
proof -
  have L: "length (values i) < 2 ^ 63" using assms by simp
  have S: "sint (next i + 1) = sint (next i) + 1" if "sint (next i) \<le> int (length (values i))"
    using that assms by (intro sint_succ) simp
  have "sliceIter_Next i = (fst (sliceIter_Next i), snd (sliceIter_Next i))" by simp
  then have E: "sliceIter_Next i = (sint (next i) < int (length (values i)),
      if sint (next i) \<le> int (length (values i)) then i\<lparr>next := next i + 1\<rparr> else i)"
    by (simp only: Next_result [OF assms] Next_state [OF L])
  show ?thesis using S by (simp add: E)
qed

text \<open>
  Witness for C2: over \<open>[7]\<close>, the fresh iterator (cursor below the length), the iterator
  after one call (cursor at the length) and after two calls (cursor above the length).
\<close>

theorem Next_cases_witness:
  "length (values (Slice [7::nat])) < 2 ^ 63 - 1
   \<and> sint (next (Slice [7::nat])) < int (length (values (Slice [7::nat])))
   \<and> sliceIter_Next (Slice [7::nat]) = (True, (Slice [7::nat])\<lparr>next := next (Slice [7::nat]) + 1\<rparr>)
   \<and> sint (next (run [CallNext] (Slice [7::nat]))) = int (length (values (run [CallNext] (Slice [7::nat]))))
   \<and> sliceIter_Next (run [CallNext] (Slice [7::nat])) =
        (False, (run [CallNext] (Slice [7::nat]))\<lparr>next := next (run [CallNext] (Slice [7::nat])) + 1\<rparr>)
   \<and> int (length (values (run [CallNext, CallNext] (Slice [7::nat]))))
        < sint (next (run [CallNext, CallNext] (Slice [7::nat])))
   \<and> sliceIter_Next (run [CallNext, CallNext] (Slice [7::nat]))
        = (False, run [CallNext, CallNext] (Slice [7::nat]))"
  using Next_cases [of "Slice [7::nat]"] Next_cases [of "run [CallNext] (Slice [7::nat])"]
    Next_cases [of "run [CallNext, CallNext] (Slice [7::nat])"]
  by (simp add: Slice_def sliceIter_Next_def len_def word_sle_eq)

subsection \<open>How many calls of \<open>Next\<close> return true\<close>

text \<open>
  C3: over a list of length N the first N calls of \<open>Next\<close> return true and call N + 1
  and every later call return false, whatever calls of \<open>Item\<close>, \<open>Err\<close> and \<open>Close\<close> come
  in between: a call of \<open>Next\<close> that follows \<open>k\<close> earlier ones returns true exactly when
  \<open>k < N\<close>. \<open>Err\<close> returns none on the fresh iterator, after any sequence of calls and
  after the next \<open>Next\<close>. Over the empty list the very first \<open>Next\<close> returns false.
  (For slices shorter than \<open>2 ^ 63 - 1\<close>.)
\<close>

theorem Next_true_first_N:
  assumes "length vs < 2 ^ 63 - 1"
  shows "fst (sliceIter_Next (run ks (Slice vs))) = (count_list ks CallNext < length vs)
    \<and> sliceIter_Err (Slice vs) = None
    \<and> sliceIter_Err (run ks (Slice vs)) = None
    \<and> sliceIter_Err (snd (sliceIter_Next (run ks (Slice vs)))) = None
    \<and> fst (sliceIter_Next (Slice ([] :: 'a list))) = False"
proof -
  let ?s = "run ks (Slice vs)"
  have V: "values ?s = vs" by (simp add: run_values Slice_def)
  have L: "length (values ?s) < 2 ^ 63 - 1" using assms V by simp
  have "fst (sliceIter_Next ?s) = (count_list ks CallNext < length vs)"
    using Next_result [OF L] Slice_cursor [OF assms, of ks] V by auto
  moreover have "fst (sliceIter_Next (Slice ([] :: 'a list))) = False"
    by (simp add: Slice_def sliceIter_Next_def len_def word_sle_eq)
  ultimately show ?thesis by (simp add: sliceIter_Err_def)
qed

text \<open>
  Witness for C3: over \<open>[7, 8]\<close> the first and the second \<open>Next\<close> return true, the third
  and the fourth return false, and \<open>Err\<close> is none at the end.
\<close>

theorem Next_true_first_N_witness:
  "length [7::nat, 8] < 2 ^ 63 - 1
    \<and> fst (sliceIter_Next (run [] (Slice [7::nat, 8]))) = True
    \<and> fst (sliceIter_Next (run [CallNext, CallItem] (Slice [7::nat, 8]))) = True
    \<and> fst (sliceIter_Next (run [CallNext, CallItem, CallNext, CallItem] (Slice [7::nat, 8]))) = False
    \<and> fst (sliceIter_Next (run [CallNext, CallNext, CallNext, CallErr] (Slice [7::nat, 8]))) = False
    \<and> sliceIter_Err (run [CallNext, CallNext, CallNext, CallErr] (Slice [7::nat, 8])) = None"
  using Next_true_first_N [of "[7::nat, 8]" "[]"]
    Next_true_first_N [of "[7::nat, 8]" "[CallNext, CallItem]"]
    Next_true_first_N [of "[7::nat, 8]" "[CallNext, CallItem, CallNext, CallItem]"]
    Next_true_first_N [of "[7::nat, 8]" "[CallNext, CallNext, CallNext, CallErr]"]
  by (simp add: split_beta sliceIter_Err_def) blast

subsection \<open>The item after a successful \<open>Next\<close>\<close>

text \<open>
  C4: over a list of length N and for k from 1 to N, the k-th call of \<open>Next\<close> (the one
  that follows k - 1 earlier ones) returns true, and \<open>Item\<close> called right after it
  returns the element of the list at index k - 1. (For slices shorter than \<open>2 ^ 63 - 1\<close>.)
\<close>

theorem Item_after_kth_Next:
  assumes "length vs < 2 ^ 63 - 1" and "1 \<le> k" and "k \<le> length vs"
    and "count_list ks CallNext = k - 1"
  shows "fst (sliceIter_Next (run ks (Slice vs))) = True
    \<and> sliceIter_Item (snd (sliceIter_Next (run ks (Slice vs)))) = Some (vs ! (k - 1))"
proof -
  let ?s = "run ks (Slice vs)"
  let ?t = "snd (sliceIter_Next ?s)"
  have V: "values ?s = vs" by (simp add: run_values Slice_def)
  have L: "length (values ?s) < 2 ^ 63 - 1" using assms(1) V by simp
  have C: "sint (next ?s) = int k - 1"
    using Slice_cursor [OF assms(1), of ks] assms(2-4) by simp
  have R: "fst (sliceIter_Next ?s) = True"
    using Next_result [OF L] C V assms(2,3) by simp
  have C': "sint (next ?t) = int k"
    using Next_cursor [OF L] C V assms(3) by simp
  have V': "values ?t = vs" using V by (simp add: Next_values)
  have "sliceIter_Item ?t = Some (vs ! (k - 1))"
    using Item_eq(2) [of ?t] C' V' assms(1-3) by (simp add: nat_diff_distrib')
  with R show ?thesis by simp
qed

text \<open>Witness for C4: over \<open>[7, 8, 9]\<close> the item after the second \<open>Next\<close> is 8.\<close>

theorem Item_after_kth_Next_witness:
  "length [7::nat, 8, 9] < 2 ^ 63 - 1 \<and> (1::nat) \<le> 2 \<and> 2 \<le> length [7::nat, 8, 9]
    \<and> count_list [CallNext, CallItem] CallNext = 2 - 1
    \<and> fst (sliceIter_Next (run [CallNext, CallItem] (Slice [7::nat, 8, 9]))) = True
    \<and> sliceIter_Item (snd (sliceIter_Next (run [CallNext, CallItem] (Slice [7::nat, 8, 9])))) = Some 8"
  using Item_after_kth_Next [of "[7::nat, 8, 9]" 2 "[CallNext, CallItem]"] by simp

subsection \<open>Exhaustion\<close>

text \<open>
  C5, as stated: once the cursor equals the length, every further \<open>Next\<close> leaves the
  iterator unchanged and returns false. Counterexample: the fresh iterator over the
  empty list has cursor 0, the length, and its first \<open>Next\<close> changes it (the cursor
  becomes 1).
\<close>

theorem C5_counterexample:
  "next (Slice ([] :: string list)) = len (values (Slice ([] :: string list)))
    \<and> snd (sliceIter_Next (Slice ([] :: string list))) \<noteq> Slice []"
  by (simp add: Slice_def sliceIter_Next_def len_def word_sle_eq)

text \<open>
  C5, amended: once the cursor equals the length, every further call of \<open>Next\<close> returns
  false, whatever other calls come in between, so exhaustion is permanent; the first
  such call still moves the cursor to length + 1, and from then on every call leaves the
  iterator unchanged. (For slices shorter than \<open>2 ^ 63 - 1\<close>.)
\<close>

theorem exhaustion_permanent:
  assumes "length (values i) < 2 ^ 63 - 1" and "sint (next i) = int (length (values i))"
  shows "fst (sliceIter_Next (run ks i)) = False
    \<and> sint (next (snd (sliceIter_Next i))) = int (length (values i)) + 1
    \<and> run ks (snd (sliceIter_Next i)) = snd (sliceIter_Next i)
    \<and> sliceIter_Next (run ks (snd (sliceIter_Next i))) = (False, snd (sliceIter_Next i))"
proof -
  let ?e = "snd (sliceIter_Next i)"
  have L: "length (values (run ks i)) < 2 ^ 63 - 1" using assms(1) by (simp add: run_values)
  have "int (length (values i)) \<le> sint (next (run ks i))"
    using run_cursor [OF assms(1), of ks] assms(2) by simp
  then have A: "fst (sliceIter_Next (run ks i)) = False"
    using Next_result [OF L] by (simp add: run_values)
  have Le: "length (values ?e) < 2 ^ 63 - 1" using assms(1) by (simp add: Next_values)
  have B: "sint (next ?e) = int (length (values i)) + 1"
    using Next_cursor [OF assms(1)] assms(2) by simp
  have N: "sliceIter_Next ?e = (False, ?e)"
  proof -
    have "sliceIter_Next ?e = (fst (sliceIter_Next ?e), snd (sliceIter_Next ?e))" by simp
    also have "\<dots> = (False, ?e)"
      using Next_result [OF Le] Next_state [of ?e] Le B by (simp add: Next_values)
    finally show ?thesis .
  qed
  have X: "snd (exec k ?e) = ?e" for k
    by (cases k) (simp_all add: N)
  have Rn: "run ks ?e = ?e"
    by (induction ks) (simp_all add: X)
  from A B N Rn show ?thesis by simp
qed

text \<open>Witness for C5: the iterator over \<open>[7]\<close> after its first \<open>Next\<close>, cursor 1.\<close>

theorem exhaustion_permanent_witness:
  "length (values (run [CallNext] (Slice [7::nat]))) < 2 ^ 63 - 1
    \<and> sint (next (run [CallNext] (Slice [7::nat]))) = int (length (values (run [CallNext] (Slice [7::nat]))))
    \<and> fst (sliceIter_Next (run [CallNext, CallItem, CallNext] (run [CallNext] (Slice [7::nat])))) = False
    \<and> sint (next (snd (sliceIter_Next (run [CallNext] (Slice [7::nat]))))) = 2
    \<and> sliceIter_Next (run [CallNext, CallItem, CallNext] (snd (sliceIter_Next (run [CallNext] (Slice [7::nat])))))
        = (False, snd (sliceIter_Next (run [CallNext] (Slice [7::nat]))))"
  using exhaustion_permanent [of "run [CallNext] (Slice [7::nat])" "[CallNext, CallItem, CallNext]"]
  by (simp add: Slice_def sliceIter_Next_def len_def word_sle_eq)

subsection \<open>The backing list\<close>

text \<open>
  C7: no call mutates the backing list. The \<open>values\<close> field, hence its contents and
  its length, is the same before and after each call and after every sequence of
  calls; \<open>Item\<close>, \<open>Err\<close> and \<open>Close\<close> leave the whole iterator as it was, and a sequence
  of calls changes at most the \<open>next\<close> field.
\<close>

theorem values_never_mutated:
  "values (snd (exec k i)) = values i
    \<and> snd (exec CallItem i) = i \<and> snd (exec CallErr i) = i \<and> snd (exec CallClose i) = i
    \<and> values (run ks i) = values i \<and> length (values (run ks i)) = length (values i)
    \<and> run ks i = i\<lparr>next := next (run ks i)\<rparr>"
proof -
  have "values (run ks i) = values i" by (rule run_values)
  then have "run ks i = i\<lparr>next := next (run ks i)\<rparr>" by simp
  then show ?thesis by (simp add: exec_values run_values)
qed

subsection \<open>Bounds of the access in \<open>Item\<close>\<close>

text \<open>
  C10: over a list of length N, when the most recent call of \<open>Next\<close> returned true (only
  calls other than \<open>Next\<close> came after it), the index \<open>next - 1\<close> that \<open>Item\<close> uses lies in
  [0, N) and \<open>Item\<close> returns the element there. Before any call of \<open>Next\<close> the index is
  -1, and when the most recent \<open>Next\<close> returned false the index is N, which is not below
  N: both accesses are out of bounds and yield \<open>None\<close>, Go's panic. (For slices shorter
  than \<open>2 ^ 63 - 1\<close>.)
\<close>

theorem Item_in_bounds_iff_Next_true:
  assumes "length vs < 2 ^ 63 - 1" and "CallNext \<notin> set ds"
  shows "(fst (sliceIter_Next (run ks (Slice vs))) \<longrightarrow>
            0 \<le> sint (next (run ds (snd (sliceIter_Next (run ks (Slice vs))))) - 1)
          \<and> sint (next (run ds (snd (sliceIter_Next (run ks (Slice vs))))) - 1) < int (length vs)
          \<and> sliceIter_Item (run ds (snd (sliceIter_Next (run ks (Slice vs))))) =
              Some (vs ! nat (sint (next (run ds (snd (sliceIter_Next (run ks (Slice vs))))) - 1))))
       \<and> sint (next (run ds (Slice vs)) - 1) = - 1
       \<and> sliceIter_Item (run ds (Slice vs)) = None
       \<and> (\<not> fst (sliceIter_Next (run ks (Slice vs))) \<longrightarrow>
            int (length vs) \<le> sint (next (run ds (snd (sliceIter_Next (run ks (Slice vs))))) - 1)
          \<and> sint (next (run ds (snd (sliceIter_Next (run ks (Slice vs))))) - 1) = int (length vs)
          \<and> sliceIter_Item (run ds (snd (sliceIter_Next (run ks (Slice vs))))) = None)"
proof -
  let ?s = "run ks (Slice vs)"
  let ?t = "snd (sliceIter_Next ?s)"
  have D: "run ds j = j" for j :: "'a sliceIter"
    using assms(2) by (rule run_no_Next)
  have V: "values ?s = vs" by (simp add: run_values Slice_def)
  have L: "length (values ?s) < 2 ^ 63 - 1" using assms(1) V by simp
  have C: "sint (next ?s) = min (int (count_list ks CallNext)) (int (length vs) + 1)"
    by (rule Slice_cursor [OF assms(1)])
  have R: "fst (sliceIter_Next ?s) = (sint (next ?s) < int (length vs))"
    using Next_result [OF L] V by simp
  have C': "sint (next ?t) = (if sint (next ?s) \<le> int (length vs) then sint (next ?s) + 1 else sint (next ?s))"
    using Next_cursor [OF L] V by simp
  have V': "values ?t = vs" using V by (simp add: Next_values)
  have L': "length (values ?t) < 2 ^ 63" using V' assms(1) by simp
  have P: "0 \<le> sint (next ?t)" using C C' by simp
  note I = Item_eq [OF L' P]
  have T: "fst (sliceIter_Next ?s) \<longrightarrow>
            0 \<le> sint (next ?t - 1) \<and> sint (next ?t - 1) < int (length vs)
          \<and> sliceIter_Item ?t = Some (vs ! nat (sint (next ?t - 1)))"
    using I R C C' V' by auto
  have F: "\<not> fst (sliceIter_Next ?s) \<longrightarrow>
            int (length vs) \<le> sint (next ?t - 1) \<and> sint (next ?t - 1) = int (length vs)
          \<and> sliceIter_Item ?t = None"
    using I R C C' V' by auto
  have L0: "length (values (Slice vs)) < 2 ^ 63" using assms(1) by (simp add: Slice_def)
  have P0: "0 \<le> sint (next (Slice vs))" by (simp add: Slice_def)
  have Z: "sint (next (Slice vs) - 1) = - 1 \<and> sliceIter_Item (Slice vs) = None"
    using Item_eq [OF L0 P0] by (simp add: Slice_def)
  from T F Z show ?thesis by (simp only: D)
qed

text \<open>
  Witness for C10: over \<open>[7, 8]\<close>, after the second \<open>Next\<close> (true) the index is 1 and the
  item 8; on the fresh iterator and after the third \<open>Next\<close> (false) \<open>Item\<close> yields \<open>None\<close>.
\<close>

theorem Item_in_bounds_iff_Next_true_witness:
  "length [7::nat, 8] < 2 ^ 63 - 1 \<and> CallNext \<notin> set [CallErr, CallItem]
    \<and> fst (sliceIter_Next (run [CallNext] (Slice [7::nat, 8])))
    \<and> sint (next (run [CallErr, CallItem] (snd (sliceIter_Next (run [CallNext] (Slice [7::nat, 8]))))) - 1) = 1
    \<and> sliceIter_Item (run [CallErr, CallItem] (snd (sliceIter_Next (run [CallNext] (Slice [7::nat, 8]))))) = Some 8
    \<and> sliceIter_Item (run [CallErr, CallItem] (Slice [7::nat, 8])) = None
    \<and> \<not> fst (sliceIter_Next (run [CallNext, CallNext] (Slice [7::nat, 8])))
    \<and> sint (next (run [CallErr, CallItem] (snd (sliceIter_Next (run [CallNext, CallNext] (Slice [7::nat, 8]))))) - 1) = 2
    \<and> sliceIter_Item (run [CallErr, CallItem] (snd (sliceIter_Next (run [CallNext, CallNext] (Slice [7::nat, 8]))))) = None"
  using Item_in_bounds_iff_Next_true [of "[7::nat, 8]" "[CallErr, CallItem]" "[CallNext]"]
    Item_in_bounds_iff_Next_true [of "[7::nat, 8]" "[CallErr, CallItem]" "[CallNext, CallNext]"]
  by (simp add: Slice_def sliceIter_Next_def sliceIter_Item_def index_def len_def word_sle_eq word_sless_alt)

section \<open>Properties of the scanner iterator\<close>

text \<open>
  Once reading has ended and the buffer is empty, \<open>Next\<close> returns false for good and the
  recorded error stays.
\<close>

lemma Scan_drained:
  assumes "atEOF s" and "unread s = []"
  shows "Scan s = (False, s\<lparr>token := []\<rparr>)"
  using assms by (simp add: Scan_def finalToken_def)

lemma Next_drained:
  assumes "atEOF (scanner i)" and "unread (scanner i) = []"
  shows "scannerIter_Next i = (False, i\<lparr>scanner := (scanner i)\<lparr>token := []\<rparr>\<rparr>)"
  using assms by (simp add: scannerIter_Next_def Scan_drained)

lemma pulls_drained:
  assumes "atEOF (scanner i)" and "unread (scanner i) = []"
  shows "fst (pulls n i) = replicate n None
    \<and> atEOF (scanner (snd (pulls n i))) \<and> unread (scanner (snd (pulls n i))) = []
    \<and> scannerIter_Err (snd (pulls n i)) = err (scanner i)"
  using assms
proof (induction n arbitrary: i)
  case 0
  then show ?case by (simp add: scannerIter_Err_def Err_def)
next
  case (Suc n)
  let ?j = "i\<lparr>scanner := (scanner i)\<lparr>token := []\<rparr>\<rparr>"
  have N: "scannerIter_Next i = (False, ?j)"
    using Suc.prems by (rule Next_drained)
  have "atEOF (scanner ?j)" and "unread (scanner ?j) = []"
    using Suc.prems by simp_all
  from Suc.IH [OF this] show ?case
    by (simp add: N split_beta)
qed

text \<open>The steps of \<open>Scan\<close> while reading goes on, and the step on a buffer left behind.\<close>

lemma Scan_end_of_input:
  assumes "\<not> atEOF s" and "0 < maxTokenSize s" and "unread s = []"
  shows "Scan s = (False, s\<lparr>token := [], err := failure s, atEOF := True\<rparr>)"
  using assms by (simp add: Scan_def finalToken_def)




lemma Scan_line:
  assumes "\<not> atEOF s" and "newline \<notin> set ln" and "length ln < maxTokenSize s"
    and "unread s = ln @ newline # rest"
  shows "Scan s = (True, s\<lparr>unread := rest, token := dropCR ln\<rparr>)"
proof -
  have "takeWhile (\<lambda>x. x \<noteq> newline) (ln @ newline # rest) = ln"
    using assms(2) by (simp add: takeWhile_tail takeWhile_eq_all_conv) blast
  with assms show ?thesis
    by (simp add: Scan_def)
qed

lemma Scan_last_line:
  assumes "\<not> atEOF s" and "newline \<notin> set ln" and "length ln < maxTokenSize s"
    and "ln \<noteq> []" and "unread s = ln"
  shows "Scan s = (True, s\<lparr>unread := [], token := dropCR ln, err := failure s, atEOF := True\<rparr>)"
proof -
  have tw: "takeWhile (\<lambda>x. x \<noteq> newline) ln = ln"
    using assms(2) by (simp add: takeWhile_eq_all_conv) blast
  show ?thesis
    using assms(1,3,4,5) by (simp add: Scan_def finalToken_def tw)
qed

lemma pulls_Suc_True:
  assumes "scannerIter_Next i = (True, j)"
  shows "pulls (Suc n) i = (Some (scannerIter_Item j) # fst (pulls n j), snd (pulls n j))"
  using assms by (simp add: split_beta)

lemma pulls_at_end:
  assumes "unread (scanner i) = []" and "atEOF (scanner i) \<or> 0 < maxTokenSize (scanner i)"
    and "failure (scanner i) = err (scanner i)"
  shows "fst (pulls n i) = replicate n None \<and> scannerIter_Err (snd (pulls n i)) = err (scanner i)"
proof (cases "atEOF (scanner i)")
  case True
  then show ?thesis using pulls_drained [OF True assms(1), of n] by simp
next
  case False
  show ?thesis
  proof (cases n)
    case 0
    then show ?thesis by (simp add: scannerIter_Err_def Err_def)
  next
    case (Suc m)
    let ?j = "i\<lparr>scanner := (scanner i)\<lparr>token := [], err := failure (scanner i), atEOF := True\<rparr>\<rparr>"
    have N: "scannerIter_Next i = (False, ?j)"
      using False assms(1,2) by (simp add: scannerIter_Next_def Scan_end_of_input)
    have "atEOF (scanner ?j)" and "unread (scanner ?j) = []"
      using assms(1) by simp_all
    from pulls_drained [OF this, of m] show ?thesis
      using assms(3) by (simp add: Suc N split_beta)
  qed
qed

subsection \<open>A line that is too long\<close>




subsection \<open>Closing\<close>

text \<open>
  C8: \<open>Close\<close> returns exactly what the \<open>Close\<close> of the wrapped resource returns, leaves
  the resource in the state that call left it in, does not touch the scanner, and its
  result does not depend on the scanner's state, so not on any iteration error.
\<close>

theorem Close_delegates:
  "fst (scannerIter_Close close i) = fst (close (c i))
    \<and> c (snd (scannerIter_Close close i)) = snd (close (c i))
    \<and> scanner (snd (scannerIter_Close close i)) = scanner i
    \<and> fst (scannerIter_Close close (i\<lparr>scanner := s\<rparr>)) = fst (scannerIter_Close close i)"
  by (simp add: scannerIter_Close_def split_beta)

subsection \<open>Lines of a text\<close>

text \<open>
  C9: over the input \<open>a\<close>, newline, \<open>b\<close>, newline, \<open>c\<close> the first three rounds yield
  \<open>a\<close>, \<open>b\<close>, \<open>c\<close> in order, the fourth call of \<open>Next\<close> and every later one return
  false, and \<open>Err\<close> is none. Over \<open>a\<close>, newline, \<open>b\<close>, newline exactly the two items
  \<open>a\<close> and \<open>b\<close> are produced and \<open>Err\<close> is none: the empty rest after the last newline
  is not an item. (For every maximum token size of at least 2, so that a line of one
  byte fits the buffer together with its newline.)
\<close>

theorem lines_abc:
  assumes "2 \<le> mx"
  shows "fst (pulls (3 + n) (NewScannerIter r (''a'' @ [newline] @ ''b'' @ [newline] @ ''c'') None mx))
        = [Some ''a'', Some ''b'', Some ''c''] @ replicate n None
    \<and> scannerIter_Err (snd (pulls (3 + n) (NewScannerIter r (''a'' @ [newline] @ ''b'' @ [newline] @ ''c'') None mx))) = None
    \<and> fst (pulls (2 + n) (NewScannerIter r (''a'' @ [newline] @ ''b'' @ [newline]) None mx))
        = [Some ''a'', Some ''b''] @ replicate n None
    \<and> scannerIter_Err (snd (pulls (2 + n) (NewScannerIter r (''a'' @ [newline] @ ''b'' @ [newline]) None mx))) = None"
proof -
  define st where "st u t e =
    \<lparr>c = r, scanner = \<lparr>unread = u, failure = None, maxTokenSize = mx, token = t, err = None, atEOF = e\<rparr>\<rparr>"
    for u t e
  have new: "NewScannerIter r u None mx = st u [] False" for u
    by (simp add: NewScannerIter_def st_def)
  have line: "scannerIter_Next (st ([x] @ [newline] @ u) t False) = (True, st u [x] False)"
    if "x \<noteq> newline" and "x \<noteq> carriage_return" for x u t
    using that assms Scan_line [of "scanner (st ([x] @ [newline] @ u) t False)" "[x]" u]
    by (simp add: scannerIter_Next_def st_def dropCR_def)
  have last_line: "scannerIter_Next (st [x] t False) = (True, st [] [x] True)"
    if "x \<noteq> newline" and "x \<noteq> carriage_return" for x t
    using that assms Scan_last_line [of "scanner (st [x] t False)" "[x]"]
    by (simp add: scannerIter_Next_def st_def dropCR_def)
  have item: "scannerIter_Item (st u t e) = t" for u t e
    by (simp add: scannerIter_Item_def Text_def st_def)
  have fin: "fst (pulls n (st [] t e)) = replicate n None \<and> scannerIter_Err (snd (pulls n (st [] t e))) = None"
    for t e
    using pulls_at_end [of "st [] t e" n] assms by (simp add: st_def)
  have chars: "CHR ''a'' \<noteq> newline" "CHR ''b'' \<noteq> newline" "CHR ''c'' \<noteq> newline"
    "CHR ''a'' \<noteq> carriage_return" "CHR ''b'' \<noteq> carriage_return" "CHR ''c'' \<noteq> carriage_return"
    by (simp_all add: newline_def carriage_return_def)
  have a: "scannerIter_Next (st (CHR ''a'' # newline # u) t False) = (True, st u ''a'' False)" for u t
    using line [of "CHR ''a''" u t] chars by simp
  have b: "scannerIter_Next (st (CHR ''b'' # newline # u) t False) = (True, st u ''b'' False)" for u t
    using line [of "CHR ''b''" u t] chars by simp
  have c': "scannerIter_Next (st ''c'' t False) = (True, st [] ''c'' True)" for t
    using last_line [of "CHR ''c''" t] chars by simp
  have three: "3 + n = Suc (Suc (Suc n))" and two: "2 + n = Suc (Suc n)"
    by simp_all
  have P3: "pulls (3 + n) (st (''a'' @ [newline] @ ''b'' @ [newline] @ ''c'') [] False)
      = ([Some ''a'', Some ''b'', Some ''c''] @ fst (pulls n (st [] ''c'' True)), snd (pulls n (st [] ''c'' True)))"
    unfolding three
    by (simp add: pulls_Suc_True [OF a] pulls_Suc_True [OF b] pulls_Suc_True [OF c'] item
        del: pulls.simps)
  have P2: "pulls (2 + n) (st (''a'' @ [newline] @ ''b'' @ [newline]) [] False)
      = ([Some ''a'', Some ''b''] @ fst (pulls n (st [] ''b'' False)), snd (pulls n (st [] ''b'' False)))"
    unfolding two
    by (simp add: pulls_Suc_True [OF a] pulls_Suc_True [OF b] item del: pulls.simps)
  show ?thesis
    unfolding new P3 P2 using fin by simp
qed

text \<open>Witness for C9: the library's default maximum token size, 65536.\<close>

theorem lines_abc_witness:
  "(2::nat) \<le> 65536
    \<and> fst (pulls 4 (NewScannerIter () (''a'' @ [newline] @ ''b'' @ [newline] @ ''c'') None 65536))
        = [Some ''a'', Some ''b'', Some ''c'', None]
    \<and> scannerIter_Err (snd (pulls 4 (NewScannerIter () (''a'' @ [newline] @ ''b'' @ [newline] @ ''c'') None 65536))) = None
    \<and> fst (pulls 3 (NewScannerIter () (''a'' @ [newline] @ ''b'' @ [newline]) None 65536))
        = [Some ''a'', Some ''b'', None]
    \<and> scannerIter_Err (snd (pulls 3 (NewScannerIter () (''a'' @ [newline] @ ''b'' @ [newline]) None 65536))) = None"
  using lines_abc [of 65536 1 "()"] by simp

end
